theory Spec2Isabelle
  imports Main "HOL-Library.AList" "HOL-Library.Sublist"
begin

section \<open>Data model of script-coverage.py\<close>

text \<open>
  The script keeps two Python dictionaries. A dictionary is modelled as an association
  list in insertion order: \<open>d[k] = v\<close> is \<open>AList.update k v d\<close> (an existing key keeps
  its position, a new key is appended), \<open>d[k]\<close> is \<open>map_of d k\<close>, \<open>d.keys()\<close> is
  \<open>map fst d\<close> and \<open>d.items()\<close> is the list itself. Python compares dictionaries as
  mappings, without regard to the insertion order, which is equality of \<open>map_of\<close>.

  Strings are \<open>string\<close>; the text handled by the script (git numstat output and LCOV
  reports) is taken to be ASCII.
\<close>

text \<open>
  The coverage record of one source file: the dictionary with the keys
  \<open>'DA'\<close>, \<open>'FN'\<close>, \<open>'FNDA'\<close>, \<open>'FNF'\<close>, \<open>'FNH'\<close>, \<open>'LH'\<close>, \<open>'LF'\<close> that
  \<open>parse_lcov_report\<close> creates and \<open>filter_lcov_by_git_diff\<close> rebuilds.
\<close>

record coverage_record =
  DA :: "(int \<times> int) list"
  FN :: "string list"
  FNDA :: "string list"
  FNF :: int
  FNH :: int
  LH :: int
  LF :: int

type_synonym change_set = "(string \<times> int set) list"

type_synonym coverage_report = "(string \<times> coverage_record) list"

section \<open>Python strings\<close>

text \<open>
  The built-in string operations the script uses, on ASCII text. The whitespace
  characters of \<open>str.split()\<close> and \<open>str.strip()\<close> are tab, line feed, vertical
  tab, form feed, carriage return, the separators 0x1C to 0x1F and space.
\<close>

definition isspace :: "char \<Rightarrow> bool" where
  "isspace c \<longleftrightarrow>
     c \<in> set [CHR 0x09, CHR 0x0A, CHR 0x0B, CHR 0x0C, CHR 0x0D,
               CHR 0x1C, CHR 0x1D, CHR 0x1E, CHR 0x1F, CHR '' '']"

text \<open>\<open>s.strip()\<close>\<close>

definition strip :: "string \<Rightarrow> string" where
  "strip s = rev (dropWhile isspace (rev (dropWhile isspace s)))"

text \<open>
  \<open>s.split()\<close>: the maximal runs of characters that are not whitespace. \<open>cur\<close> is
  the run being read, reversed.
\<close>

fun split_from :: "string \<Rightarrow> string \<Rightarrow> string list" where
  "split_from cur [] = (if cur = [] then [] else [rev cur])"
| "split_from cur (c # cs) =
     (if isspace c then (if cur = [] then split_from [] cs else rev cur # split_from [] cs)
      else split_from (c # cur) cs)"

definition split :: "string \<Rightarrow> string list" where
  "split s = split_from [] s"

text \<open>\<open>s.split(sep)\<close> for a separator of one character; the result is never empty.\<close>

fun split_on_from :: "char \<Rightarrow> string \<Rightarrow> string \<Rightarrow> string list" where
  "split_on_from sep cur [] = [rev cur]"
| "split_on_from sep cur (c # cs) =
     (if c = sep then rev cur # split_on_from sep [] cs else split_on_from sep (c # cur) cs)"

definition split_on :: "char \<Rightarrow> string \<Rightarrow> string list" where
  "split_on sep s = split_on_from sep [] s"

text \<open>
  Lines of a text. \<open>brk\<close> says which characters end a line; a carriage return
  followed by a line feed ends one line, and no empty line follows the last line end.
\<close>

fun lines_from :: "(char \<Rightarrow> bool) \<Rightarrow> string \<Rightarrow> bool \<Rightarrow> string \<Rightarrow> string list" where
  "lines_from brk cur after_cr [] = (if cur = [] then [] else [rev cur])"
| "lines_from brk cur after_cr (c # cs) =
     (if after_cr \<and> c = CHR 0x0A then lines_from brk cur False cs
      else if brk c then rev cur # lines_from brk [] (c = CHR 0x0D) cs
      else lines_from brk (c # cur) False cs)"

text \<open>\<open>s.splitlines()\<close>: the ASCII line boundaries of Python.\<close>

definition splitlines :: "string \<Rightarrow> string list" where
  "splitlines s =
     lines_from (\<lambda>c. c \<in> set [CHR 0x0A, CHR 0x0B, CHR 0x0C, CHR 0x0D, CHR 0x1C, CHR 0x1D, CHR 0x1E])
       [] False s"

text \<open>
  \<open>for line in f\<close> on a file opened in text mode: lines end at a line feed, a carriage
  return or both. The line end itself is dropped here; the script strips each line.
\<close>

definition file_lines :: "string \<Rightarrow> string list" where
  "file_lines s = lines_from (\<lambda>c. c = CHR 0x0A \<or> c = CHR 0x0D) [] False s"

definition isdigit_char :: "char \<Rightarrow> bool" where
  "isdigit_char c \<longleftrightarrow> c \<in> set ''0123456789''"

text \<open>\<open>s.isdigit()\<close>: not empty and digits only.\<close>

definition isdigit :: "string \<Rightarrow> bool" where
  "isdigit s \<longleftrightarrow> s \<noteq> [] \<and> list_all isdigit_char s"

definition digit_val :: "char \<Rightarrow> int" where
  "digit_val c = int (of_char c) - 48"

text \<open>
  The digits of \<open>int(s)\<close>: decimal digits, single underscores allowed between two
  digits. \<open>after_digit\<close> says that the previous character was a digit.
\<close>

fun int_digits :: "bool \<Rightarrow> int \<Rightarrow> string \<Rightarrow> int option" where
  "int_digits after_digit acc [] = (if after_digit then Some acc else None)"
| "int_digits after_digit acc (c # cs) =
     (if isdigit_char c then int_digits True (10 * acc + digit_val c) cs
      else if c = CHR ''_'' \<and> after_digit then int_digits False acc cs
      else None)"

text \<open>
  The whitespace of \<open>int()\<close> on an ASCII string is that of C: tab, line feed, vertical
  tab, form feed, carriage return and space. The separators 0x1C to 0x1F are not part of it.
\<close>

definition int_space :: "char \<Rightarrow> bool" where
  "int_space c \<longleftrightarrow> c \<in> set [CHR 0x09, CHR 0x0A, CHR 0x0B, CHR 0x0C, CHR 0x0D, CHR '' '']"

text \<open>
  \<open>sys.int_max_str_digits\<close>: the most digits that \<open>int()\<close> converts, 4300 unless the
  interpreter is told otherwise.
\<close>

definition max_str_digits :: nat where
  "max_str_digits = 4300"

text \<open>
  \<open>int(s)\<close>: surrounding whitespace is ignored, one sign may come first, and the digits,
  underscores not counted, are at most \<open>max_str_digits\<close>. \<open>None\<close> stands for the
  \<open>ValueError\<close> of Python.
\<close>

definition py_int :: "string \<Rightarrow> int option" where
  "py_int s =
     (case rev (dropWhile int_space (rev (dropWhile int_space s))) of
        [] \<Rightarrow> None
      | c # ds \<Rightarrow>
          (let body = (if c = CHR ''-'' \<or> c = CHR ''+'' then ds else c # ds)
           in if max_str_digits < length (filter isdigit_char body) then None
              else if c = CHR ''-'' then map_option uminus (int_digits False 0 body)
              else int_digits False 0 body))"

text \<open>\<open>str(n)\<close> for an integer\<close>

function str_nat :: "nat \<Rightarrow> string" where
  "str_nat n =
     (if n < 10 then [''0123456789'' ! n]
      else str_nat (n div 10) @ [''0123456789'' ! (n mod 10)])"
  by pat_completeness auto
termination
  by (relation "measure id") auto

definition str_int :: "int \<Rightarrow> string" where
  "str_int i = (if i < 0 then CHR ''-'' # str_nat (nat (- i)) else str_nat (nat i))"

section \<open>Errors and the environment\<close>

text \<open>
  The exceptions the script can raise: the \<open>Exception\<close> and \<open>FileNotFoundError\<close> it
  raises itself, with their messages, and the \<open>ValueError\<close> of \<open>int()\<close>, the
  \<open>IndexError\<close> of an index out of range and the \<open>TypeError\<close> of subscripting \<open>None\<close>.
\<close>

datatype error =
    Exception string
  | FileNotFoundError string
  | ValueError
  | IndexError
  | TypeError

text \<open>The \<open>CompletedProcess\<close> that \<open>subprocess.run\<close> returns.\<close>

record completed_process =
  returncode :: int
  stdout :: string
  stderr :: string

text \<open>
  The environment of a run: what running a command returns, and the files by path. Every
  path can be written.
\<close>

type_synonym runner = "string list \<Rightarrow> completed_process"

type_synonym files = "string \<rightharpoonup> string"

section \<open>get_git_diff_lines\<close>

text \<open>
  One round of the loop over \<open>diff_lines.splitlines()\<close>. \<open>int(added)\<close> is guarded by
  \<open>added.isdigit()\<close>, and still raises \<open>ValueError\<close> on more digits than
  \<open>max_str_digits\<close>.
\<close>

definition diff_line :: "string \<Rightarrow> change_set \<Rightarrow> error + change_set" where
  "diff_line line changes =
     (if prefix ''diff --git'' line then Inr changes
      else
        (case split line of
           [added, removed, filepath] \<Rightarrow>
             (if isdigit added then
                (case py_int added of
                   None \<Rightarrow> Inl ValueError
                 | Some n \<Rightarrow> Inr (AList.update filepath {1..n} changes))
              else Inr changes)
         | _ \<Rightarrow> Inr changes))"

fun diff_loop :: "string list \<Rightarrow> change_set \<Rightarrow> error + change_set" where
  "diff_loop [] changes = Inr changes"
| "diff_loop (line # rest) changes =
     (case diff_line line changes of
        Inl e \<Rightarrow> Inl e
      | Inr changes' \<Rightarrow> diff_loop rest changes')"

definition get_git_diff_lines :: "runner \<Rightarrow> string \<Rightarrow> string \<Rightarrow> error + change_set" where
  "get_git_diff_lines run commit_id folder_path =
     (let command = [''git'', ''diff'', commit_id, ''--numstat'', ''--'', folder_path];
          result = run command
      in if returncode result \<noteq> 0
         then Inl (Exception (''Error getting git diff: '' @ stderr result))
         else diff_loop (splitlines (stdout result)) [])"

text \<open>
  What a line of the diff output stores, if anything: the path and the line set of a
  line of three fields whose first field is a number.
\<close>

definition numstat_entry :: "string \<Rightarrow> (string \<times> int set) option" where
  "numstat_entry line =
     (case split line of
        [added, removed, filepath] \<Rightarrow>
          (if isdigit added then map_option (\<lambda>n. (filepath, {1..n})) (py_int added) else None)
      | _ \<Rightarrow> None)"


text \<open>
  A line of three fields whose first field is a number of more digits than \<open>int()\<close>
  converts.
\<close>

definition long_count :: "string \<Rightarrow> bool" where
  "long_count line \<longleftrightarrow>
     (case split line of
        [added, removed, filepath] \<Rightarrow> isdigit added \<and> max_str_digits < length added
      | _ \<Rightarrow> False)"

section \<open>parse_lcov_report\<close>

text \<open>
  The state of the loop over the lines of the report: \<open>coverage_data\<close>, and
  \<open>current_file\<close> with \<open>coverage_record\<close>, both \<open>None\<close> until the first \<open>SF:\<close> line.
  \<open>coverage_record\<close> is the very object stored in \<open>coverage_data[current_file]\<close>, so a
  change of the record is written to both.
\<close>

type_synonym parser_state = "coverage_report \<times> (string \<times> coverage_record) option"

definition modify :: "(coverage_record \<Rightarrow> coverage_record) \<Rightarrow> parser_state \<Rightarrow> error + parser_state" where
  "modify f st =
     (case snd st of
        None \<Rightarrow> Inl TypeError
      | Some (current_file, coverage_record) \<Rightarrow>
          Inr (AList.update current_file (f coverage_record) (fst st),
               Some (current_file, f coverage_record)))"

definition set_count ::
  "string \<Rightarrow> (int \<Rightarrow> coverage_record \<Rightarrow> coverage_record) \<Rightarrow> parser_state \<Rightarrow> error + parser_state" where
  "set_count s f st =
     (case py_int s of
        None \<Rightarrow> Inl ValueError
      | Some n \<Rightarrow> modify (f n) st)"

definition parse_da :: "string \<Rightarrow> parser_state \<Rightarrow> error + parser_state" where
  "parse_da s st =
     (case split_on CHR '','' s of
        [] \<Rightarrow> Inl IndexError
      | p0 # ps \<Rightarrow>
          (case py_int p0 of
             None \<Rightarrow> Inl ValueError
           | Some line_number \<Rightarrow>
               (case ps of
                  [] \<Rightarrow> Inl IndexError
                | p1 # _ \<Rightarrow>
                    (case py_int p1 of
                       None \<Rightarrow> Inl ValueError
                     | Some coverage_hits \<Rightarrow>
                         modify (\<lambda>r. r\<lparr>DA := DA r @ [(line_number, coverage_hits)]\<rparr>) st))))"

definition parse_line :: "string \<Rightarrow> parser_state \<Rightarrow> error + parser_state" where
  "parse_line raw st =
     (let line = strip raw in
      if prefix ''SF:'' line then
        (let current_file = drop 3 line;
             coverage_record = \<lparr> DA = [], FN = [], FNDA = [], FNF = 0, FNH = 0, LH = 0, LF = 0 \<rparr>
         in Inr (AList.update current_file coverage_record (fst st),
                 Some (current_file, coverage_record)))
      else if prefix ''DA:'' line then parse_da (drop 3 line) st
      else if prefix ''FN:'' line then modify (\<lambda>r. r\<lparr>FN := FN r @ [drop 3 line]\<rparr>) st
      else if prefix ''FNDA:'' line then modify (\<lambda>r. r\<lparr>FNDA := FNDA r @ [drop 5 line]\<rparr>) st
      else if prefix ''FNF:'' line then set_count (drop 4 line) (\<lambda>n r. r\<lparr>FNF := n\<rparr>) st
      else if prefix ''FNH:'' line then set_count (drop 4 line) (\<lambda>n r. r\<lparr>FNH := n\<rparr>) st
      else if prefix ''LH:'' line then set_count (drop 3 line) (\<lambda>n r. r\<lparr>LH := n\<rparr>) st
      else if prefix ''LF:'' line then set_count (drop 3 line) (\<lambda>n r. r\<lparr>LF := n\<rparr>) st
      else Inr st)"

fun parse_loop :: "string list \<Rightarrow> parser_state \<Rightarrow> error + parser_state" where
  "parse_loop [] st = Inr st"
| "parse_loop (raw # rest) st =
     (case parse_line raw st of
        Inl e \<Rightarrow> Inl e
      | Inr st' \<Rightarrow> parse_loop rest st')"

definition parse_lcov_report :: "files \<Rightarrow> string \<Rightarrow> error + coverage_report" where
  "parse_lcov_report fs lcov_report_path =
     (case fs lcov_report_path of
        None \<Rightarrow> Inl (FileNotFoundError (''LCOV report not found at path: '' @ lcov_report_path))
      | Some content \<Rightarrow>
          (case parse_loop (file_lines content) ([], None) of
             Inl e \<Rightarrow> Inl e
           | Inr st \<Rightarrow> Inr (fst st)))"

text \<open>The kinds of lines of a report: the line that opens a record, and the lines that fill it.\<close>

definition is_sf :: "string \<Rightarrow> bool" where
  "is_sf raw \<longleftrightarrow> prefix ''SF:'' (strip raw)"

definition is_directive :: "string \<Rightarrow> bool" where
  "is_directive raw \<longleftrightarrow>
     list_ex (\<lambda>p. prefix p (strip raw))
       [''DA:'', ''FN:'', ''FNDA:'', ''FNF:'', ''FNH:'', ''LH:'', ''LF:'']"

section \<open>filter_lcov_by_git_diff\<close>

text \<open>\<open>[(line, hits) for line, hits in data['DA'] if line in changed_lines]\<close>\<close>

definition filter_da :: "int set \<Rightarrow> (int \<times> int) list \<Rightarrow> (int \<times> int) list" where
  "filter_da changed_lines da = filter (\<lambda>(line, hits). line \<in> changed_lines) da"

text \<open>
  The dictionary literal stored in \<open>filtered_coverage[cd]\<close>, with
  \<open>filtered_lh = len(filtered_da)\<close> and
  \<open>filtered_lf = len(set(line for line, _ in filtered_da))\<close>.
\<close>

definition filtered_record :: "coverage_record \<Rightarrow> (int \<times> int) list \<Rightarrow> coverage_record" where
  "filtered_record data filtered_da =
     \<lparr> DA = filtered_da,
       FN = FN data,
       FNDA = FNDA data,
       FNF = FNF data,
       FNH = FNH data,
       LH = int (length filtered_da),
       LF = int (card (set (map fst filtered_da))) \<rparr>"

text \<open>
  The body of the inner loop for one coverage key \<open>cd\<close>. \<open>cd in file\<close> on Python
  strings is the contiguous-substring test \<open>sublist\<close>. The lookup \<open>coverage_data[cd]\<close>
  cannot fail, because \<open>cd\<close> is drawn from \<open>coverage_data.keys()\<close>; the \<open>None\<close> branch
  is never taken (lemma \<open>filter_keys_lookup\<close>). The two \<open>print\<close> calls only write to
  standard output and are left out.
\<close>

definition filter_step ::
  "string \<Rightarrow> int set \<Rightarrow> coverage_report \<Rightarrow> coverage_report \<Rightarrow> string \<Rightarrow> coverage_report" where
  "filter_step file changed_lines coverage_data filtered_coverage cd =
     (if sublist cd file then
        (case map_of coverage_data cd of
           None \<Rightarrow> filtered_coverage
         | Some data \<Rightarrow>
             (let filtered_da = filter_da changed_lines (DA data)
              in if filtered_da \<noteq> []
                 then AList.update cd (filtered_record data filtered_da) filtered_coverage
                 else filtered_coverage))
      else filtered_coverage)"

text \<open>\<open>for cd in coverage_data.keys(): ...\<close>\<close>

fun filter_inner ::
  "string \<Rightarrow> int set \<Rightarrow> coverage_report \<Rightarrow> string list \<Rightarrow> coverage_report \<Rightarrow> coverage_report" where
  "filter_inner file changed_lines coverage_data [] filtered_coverage = filtered_coverage"
| "filter_inner file changed_lines coverage_data (cd # cds) filtered_coverage =
     filter_inner file changed_lines coverage_data cds
       (filter_step file changed_lines coverage_data filtered_coverage cd)"

text \<open>\<open>for file, changed_lines in git_diff_changes.items(): ...\<close>\<close>

fun filter_outer :: "change_set \<Rightarrow> coverage_report \<Rightarrow> coverage_report \<Rightarrow> coverage_report" where
  "filter_outer [] coverage_data filtered_coverage = filtered_coverage"
| "filter_outer ((file, changed_lines) # rest) coverage_data filtered_coverage =
     filter_outer rest coverage_data
       (filter_inner file changed_lines coverage_data (map fst coverage_data) filtered_coverage)"

definition filter_lcov_by_git_diff :: "change_set \<Rightarrow> coverage_report \<Rightarrow> coverage_report" where
  "filter_lcov_by_git_diff git_diff_changes coverage_data =
     filter_outer git_diff_changes coverage_data []"

text \<open>
  The changeset entries that match the coverage key \<open>cd\<close> (the key is a substring of
  the entry's path), in the changeset's iteration order, and those of them that also keep
  at least one \<open>DA\<close> entry of the record.
\<close>

definition matching :: "change_set \<Rightarrow> string \<Rightarrow> (string \<times> int set) list" where
  "matching git_diff_changes cd =
     filter (\<lambda>(file, changed_lines). sublist cd file) git_diff_changes"

definition surviving ::
  "change_set \<Rightarrow> string \<Rightarrow> coverage_record \<Rightarrow> (string \<times> int set) list" where
  "surviving git_diff_changes cd data =
     filter (\<lambda>(file, changed_lines).
        sublist cd file \<and> filter_da changed_lines (DA data) \<noteq> []) git_diff_changes"

section \<open>save_filtered_lcov_report and main\<close>

text \<open>
  The lines written for one item of \<open>filtered_coverage.items()\<close>, and the file written
  for all of them, in the dictionary's order. Opening the output file is taken to succeed.
\<close>

definition record_text :: "string \<times> coverage_record \<Rightarrow> string" where
  "record_text item =
     (case item of (file, data) \<Rightarrow>
        ''SF:'' @ file @ [CHR 0x0A]
        @ concat (map (\<lambda>fn. ''FN:'' @ fn @ [CHR 0x0A]) (FN data))
        @ concat (map (\<lambda>fnda. ''FNDA:'' @ fnda @ [CHR 0x0A]) (FNDA data))
        @ ''FNF:'' @ str_int (FNF data) @ [CHR 0x0A]
        @ ''FNH:'' @ str_int (FNH data) @ [CHR 0x0A]
        @ concat (map (\<lambda>(line, hits). ''DA:'' @ str_int line @ '','' @ str_int hits @ [CHR 0x0A])
            (DA data))
        @ ''LH:'' @ str_int (LH data) @ [CHR 0x0A]
        @ ''LF:'' @ str_int (LF data) @ [CHR 0x0A]
        @ ''end_of_record'' @ [CHR 0x0A])"

definition save_filtered_lcov_report :: "coverage_report \<Rightarrow> string \<Rightarrow> files \<Rightarrow> files" where
  "save_filtered_lcov_report filtered_coverage output_path fs =
     fs(output_path \<mapsto> concat (map record_text filtered_coverage))"

text \<open>
  A run: the exception that ends it, if any, and the files after it. An exception of
  a step ends the run there; the \<open>print\<close> calls are left out.
\<close>

definition main ::
  "runner \<Rightarrow> files \<Rightarrow> string \<Rightarrow> string \<Rightarrow> string \<Rightarrow> string \<Rightarrow> error option \<times> files" where
  "main run fs commit_id folder_path lcov_report_path output_lcov_path =
     (case get_git_diff_lines run commit_id folder_path of
        Inl e \<Rightarrow> (Some e, fs)
      | Inr git_diff_changes \<Rightarrow>
          (case parse_lcov_report fs lcov_report_path of
             Inl e \<Rightarrow> (Some e, fs)
           | Inr coverage_data \<Rightarrow>
               (None,
                save_filtered_lcov_report
                  (filter_lcov_by_git_diff git_diff_changes coverage_data) output_lcov_path fs)))"

section \<open>Example inputs\<close>

text \<open>
  A changeset and reports in the shape of the scenario of the specification: three added
  lines in \<open>Foo.java\<close>, reported by git under a longer path than the \<open>SF:\<close> path
  of the report.
\<close>

definition example_changes :: change_set where
  "example_changes = [(''repo/src/Foo.java'', {1..3})]"

definition example_record :: coverage_record where
  "example_record =
     \<lparr> DA = [(1, 5), (2, 0), (5, 3)], FN = [''1,foo''], FNDA = [''5,foo''],
       FNF = 1, FNH = 1, LH = 2, LF = 3 \<rparr>"

definition example_report :: coverage_report where
  "example_report = [(''src/Foo.java'', example_record)]"

definition example_filtered :: coverage_record where
  "example_filtered =
     \<lparr> DA = [(1, 5), (2, 0)], FN = [''1,foo''], FNDA = [''5,foo''],
       FNF = 1, FNH = 1, LH = 2, LF = 2 \<rparr>"

definition untouched_report :: coverage_report where
  "untouched_report =
     [(''src/Foo.java'', \<lparr> DA = [(5, 3)], FN = [], FNDA = [], FNF = 0, FNH = 0, LH = 1, LF = 1 \<rparr>)]"

definition two_roots :: change_set where
  "two_roots = [(''a/Foo.java'', {1..2}), (''b/Foo.java'', {1..1})]"

definition one_line_report :: coverage_report where
  "one_line_report =
     [(''Foo.java'', \<lparr> DA = [(2, 7)], FN = [], FNDA = [], FNF = 0, FNH = 0, LH = 1, LF = 1 \<rparr>)]"

definition overlapping_changes :: change_set where
  "overlapping_changes = [(''pq'', {1..1}), (''p'', {2..2})]"

definition overlapping_report :: coverage_report where
  "overlapping_report =
     [(''p'', \<lparr> DA = [(1, 0), (2, 0)], FN = [], FNDA = [], FNF = 0, FNH = 0, LH = 0, LF = 2 \<rparr>),
      (''q'', \<lparr> DA = [(1, 0)], FN = [], FNDA = [], FNF = 0, FNH = 0, LH = 0, LF = 1 \<rparr>)]"

text \<open>
  Runs of git: three lines added to \<open>Foo.java\<close> and a binary file; an added count of
  4301 digits; and a failure with exit status 1.
\<close>

definition numstat :: "string \<Rightarrow> string \<Rightarrow> string \<Rightarrow> string" where
  "numstat added removed filepath = added @ [CHR 0x09] @ removed @ [CHR 0x09] @ filepath"

definition example_run :: runner where
  "example_run command =
     \<lparr> returncode = 0,
       stdout = numstat ''3'' ''0'' ''repo/src/Foo.java'' @ [CHR 0x0A]
         @ numstat ''-'' ''-'' ''repo/logo.png'' @ [CHR 0x0A],
       stderr = [] \<rparr>"

definition many_digits :: string where
  "many_digits = replicate 4301 (CHR ''1'')"

definition long_run :: runner where
  "long_run command =
     \<lparr> returncode = 0,
       stdout = numstat many_digits ''0'' ''repo/src/Foo.java'' @ [CHR 0x0A],
       stderr = [] \<rparr>"

definition failing_run :: runner where
  "failing_run command = \<lparr> returncode = 1, stdout = [], stderr = ''fatal: bad revision'' \<rparr>"

text \<open>
  Reports: one that opens with a record, and one whose first line is a \<open>DA:\<close> line.
\<close>

definition opened_report :: string where
  "opened_report = ''SF:a\<newline>DA:1,2\<newline>''"

definition unopened_report :: string where
  "unopened_report = ''DA:1,2\<newline>SF:a\<newline>''"

definition opened_files :: files where
  "opened_files = [''coverage.dat'' \<mapsto> opened_report]"

definition unopened_files :: files where
  "unopened_files = [''coverage.dat'' \<mapsto> unopened_report]"

text \<open>The report of the scenario, as a file.\<close>

definition example_files :: files where
  "example_files =
     [''coverage.dat'' \<mapsto>
        ''TN:\<newline>SF:src/Foo.java\<newline>FN:1,foo\<newline>FNDA:5,foo\<newline>FNF:1\<newline>FNH:1\<newline>DA:1,5\<newline>DA:2,0\<newline>DA:5,3\<newline>LH:2\<newline>LF:3\<newline>end_of_record\<newline>'']"

section \<open>Properties of get_git_diff_lines\<close>


lemma digit_not_int_space: "isdigit_char c \<Longrightarrow> \<not> int_space c"
  by (auto simp: isdigit_char_def int_space_def)

lemma digit_not_sign: "isdigit_char c \<Longrightarrow> c \<noteq> CHR ''-'' \<and> c \<noteq> CHR ''+''"
  by (auto simp: isdigit_char_def)

lemma int_digits_total:
  "list_all isdigit_char s \<Longrightarrow> s \<noteq> [] \<or> after_digit \<Longrightarrow> \<exists>n. int_digits after_digit acc s = Some n"
  by (induction s arbitrary: after_digit acc) auto

lemma int_strip_digits:
  assumes "isdigit s"
  shows "rev (dropWhile int_space (rev (dropWhile int_space s))) = s"
proof -
  from assms obtain c cs where s: "s = c # cs" and c: "isdigit_char c"
    by (cases s) (auto simp: isdigit_def)
  from assms have "isdigit_char (last s)"
    by (simp add: isdigit_def list_all_iff)
  then have "\<not> int_space (hd (rev s))"
    using assms by (simp add: isdigit_def hd_rev digit_not_int_space)
  then have "dropWhile int_space (rev s) = rev s"
    using s by (cases "rev s") auto
  moreover have "dropWhile int_space s = s"
    using s c by (simp add: digit_not_int_space)
  ultimately show ?thesis by simp
qed

lemma filter_digits: "list_all isdigit_char s \<Longrightarrow> filter isdigit_char s = s"
  by (simp add: list_all_iff)

lemma py_int_digits:
  assumes "isdigit s"
  shows "py_int s = (if max_str_digits < length s then None else int_digits False 0 s)"
proof -
  from assms obtain c cs where s: "s = c # cs" and c: "isdigit_char c"
    by (cases s) (auto simp: isdigit_def)
  from assms have f: "filter isdigit_char cs = cs"
    unfolding s isdigit_def by (intro filter_digits) simp
  have st: "rev (dropWhile int_space (rev (dropWhile int_space s))) = c # cs"
    using int_strip_digits[OF assms] s by simp
  show ?thesis
    unfolding py_int_def st
    using c digit_not_sign[OF c] by (simp add: Let_def f s)
qed

lemma py_int_short:
  assumes "isdigit s" and "length s \<le> max_str_digits"
  shows "\<exists>n. py_int s = Some n"
proof -
  from assms(1) have "\<exists>n. int_digits False 0 s = Some n"
    by (intro int_digits_total) (simp_all add: isdigit_def)
  with assms show ?thesis by (simp add: py_int_digits)
qed

lemma py_int_long: "isdigit s \<Longrightarrow> max_str_digits < length s \<Longrightarrow> py_int s = None"
  by (simp add: py_int_digits)

lemma split_diff_header:
  assumes "prefix ''diff --git'' line"
  shows "\<exists>rest. split line = ''diff'' # rest"
proof -
  from assms obtain tl where "line = ''diff --git'' @ tl" by (auto elim: prefixE)
  then show ?thesis by (simp add: split_def isspace_def)
qed

lemma not_digit_diff: "\<not> isdigit ''diff''"
  by (simp add: isdigit_def isdigit_char_def)

lemma numstat_entry_header:
  assumes "prefix ''diff --git'' line"
  shows "numstat_entry line = None" and "\<not> long_count line"
proof -
  from split_diff_header[OF assms] obtain rest where "split line = ''diff'' # rest" ..
  then show "numstat_entry line = None" and "\<not> long_count line"
    using not_digit_diff by (simp_all add: numstat_entry_def long_count_def split: list.splits)
qed

lemma diff_line_cases:
  "diff_line line changes =
     (if long_count line then Inl ValueError
      else Inr (case numstat_entry line of
                  None \<Rightarrow> changes
                | Some (filepath, ls) \<Rightarrow> AList.update filepath ls changes))"
proof (cases "prefix ''diff --git'' line")
  case True
  then show ?thesis by (simp add: diff_line_def numstat_entry_header)
next
  case False
  show ?thesis
  proof (cases "\<exists>added removed filepath. split line = [added, removed, filepath] \<and> isdigit added")
    case True
    then obtain added removed filepath where
      sp: "split line = [added, removed, filepath]" and d: "isdigit added" by blast
    show ?thesis
    proof (cases "max_str_digits < length added")
      case long: True
      with d have "py_int added = None" by (simp add: py_int_long)
      with False sp d long show ?thesis
        by (simp add: diff_line_def long_count_def)
    next
      case short: False
      with py_int_short[OF d] obtain n where "py_int added = Some n" by auto
      with False sp d short show ?thesis
        by (simp add: diff_line_def numstat_entry_def long_count_def)
    qed
  next
    case no: False
    then have "numstat_entry line = None" and "\<not> long_count line"
      by (auto simp: numstat_entry_def long_count_def split: list.splits)
    moreover from no False have "diff_line line changes = Inr changes"
      by (auto simp: diff_line_def split: list.splits)
    ultimately show ?thesis by simp
  qed
qed



lemma diff_loop_error: "diff_loop ls changes = Inl e \<Longrightarrow> e = ValueError"
  by (induction ls arbitrary: changes) (auto simp: diff_line_cases split: if_splits)




lemma splitlines_example:
  "splitlines (stdout (example_run command)) =
     [numstat ''3'' ''0'' ''repo/src/Foo.java'', numstat ''-'' ''-'' ''repo/logo.png'']"
  by (simp add: example_run_def numstat_def splitlines_def)

lemma split_numstat_3: "split (numstat ''3'' ''0'' ''repo/src/Foo.java'') = [''3'', ''0'', ''repo/src/Foo.java'']"
  by (simp add: numstat_def split_def isspace_def)

lemma split_numstat_binary: "split (numstat ''-'' ''-'' ''repo/logo.png'') = [''-'', ''-'', ''repo/logo.png'']"
  by (simp add: numstat_def split_def isspace_def)

lemma py_int_3: "py_int ''3'' = Some 3"
  by (simp add: py_int_def int_space_def isdigit_char_def digit_val_def max_str_digits_def)

lemma py_int_separator: "py_int [CHR ''1'', CHR 0x1F] = None" "py_int [CHR 0x1C, CHR ''3''] = None"
  by (simp_all add: py_int_def int_space_def isdigit_char_def max_str_digits_def)

lemma isdigit_examples: "isdigit ''3''" "\<not> isdigit ''-''"
  by (simp_all add: isdigit_def isdigit_char_def)

lemma short_examples:
  "\<not> long_count (numstat ''3'' ''0'' ''repo/src/Foo.java'')"
  "\<not> long_count (numstat ''-'' ''-'' ''repo/logo.png'')"
  by (simp_all add: long_count_def split_numstat_3 split_numstat_binary max_str_digits_def
      isdigit_examples)

lemma diff_line_3:
  "diff_line (numstat ''3'' ''0'' ''repo/src/Foo.java'') changes =
     Inr (AList.update ''repo/src/Foo.java'' {1..3} changes)"
  by (simp add: diff_line_cases short_examples numstat_entry_def split_numstat_3 isdigit_examples
      py_int_3)

lemma diff_line_binary:
  "diff_line (numstat ''-'' ''-'' ''repo/logo.png'') changes = Inr changes"
  by (simp add: diff_line_cases short_examples numstat_entry_def split_numstat_binary
      isdigit_examples)

lemma returncode_examples:
  "returncode (example_run command) = 0" "returncode (long_run command) = 0"
  by (simp_all add: example_run_def long_run_def)

lemma example_run_result:
  "get_git_diff_lines example_run commit_id folder_path = Inr example_changes"
  by (simp add: get_git_diff_lines_def returncode_examples splitlines_example diff_line_3
      diff_line_binary example_changes_def)

text \<open>A count of 4301 digits: \<open>isdigit()\<close> accepts it and \<open>int()\<close> does not.\<close>

lemma many_digits: "isdigit many_digits" "length many_digits = 4301" "list_all isdigit_char many_digits"
  by (simp_all add: many_digits_def isdigit_def list_all_iff isdigit_char_def)









text \<open>
  C8. \<open>get_git_diff_lines\<close> raises the exception of the failed diff command exactly
  when git exits with a status other than 0; the exception then carries git's standard
  error in its message, \<open>main\<close> ends with that exception and the files are as they were:
  no output file is written.
\<close>

theorem diff_command_error:
  "((\<exists>msg. get_git_diff_lines run commit_id folder_path = Inl (Exception msg)) \<longleftrightarrow>
      returncode (run [''git'', ''diff'', commit_id, ''--numstat'', ''--'', folder_path]) \<noteq> 0) \<and>
   (returncode (run [''git'', ''diff'', commit_id, ''--numstat'', ''--'', folder_path]) \<noteq> 0 \<longrightarrow>
      (\<exists>msg. get_git_diff_lines run commit_id folder_path = Inl (Exception msg) \<and>
         sublist (stderr (run [''git'', ''diff'', commit_id, ''--numstat'', ''--'', folder_path])) msg \<and>
         main run fs commit_id folder_path lcov_report_path output_lcov_path =
           (Some (Exception msg), fs)))"
proof -
  let ?result = "run [''git'', ''diff'', commit_id, ''--numstat'', ''--'', folder_path]"
  let ?msg = "''Error getting git diff: '' @ stderr ?result"
  show ?thesis
  proof (cases "returncode ?result = 0")
    case True
    then have "get_git_diff_lines run commit_id folder_path = diff_loop (splitlines (stdout ?result)) []"
      by (simp add: get_git_diff_lines_def)
    then have "get_git_diff_lines run commit_id folder_path \<noteq> Inl (Exception msg)" for msg
      using diff_loop_error[of "splitlines (stdout ?result)" "[]" "Exception msg"] by auto
    with True show ?thesis by simp
  next
    case False
    then have g: "get_git_diff_lines run commit_id folder_path = Inl (Exception ?msg)"
      by (simp add: get_git_diff_lines_def)
    then have "main run fs commit_id folder_path lcov_report_path output_lcov_path =
        (Some (Exception ?msg), fs)"
      by (simp add: main_def)
    moreover have "sublist (stderr ?result) ?msg"
      by (rule sublist_append_leftI)
    ultimately show ?thesis using False g by blast
  qed
qed

theorem diff_command_error_witness:
  "returncode (failing_run [''git'', ''diff'', ''HEAD'', ''--numstat'', ''--'', ''src'']) = 1 \<and>
   (\<exists>msg. get_git_diff_lines failing_run ''HEAD'' ''src'' = Inl (Exception msg) \<and>
      sublist ''fatal: bad revision'' msg \<and>
      main failing_run opened_files ''HEAD'' ''src'' ''coverage.dat'' ''filtered.dat'' =
        (Some (Exception msg), opened_files)) \<and>
   opened_files ''filtered.dat'' = None"
proof -
  have rc: "returncode (failing_run [''git'', ''diff'', ''HEAD'', ''--numstat'', ''--'', ''src'']) \<noteq> 0"
    and se: "stderr (failing_run [''git'', ''diff'', ''HEAD'', ''--numstat'', ''--'', ''src'']) =
      ''fatal: bad revision''"
    and one: "returncode (failing_run [''git'', ''diff'', ''HEAD'', ''--numstat'', ''--'', ''src'']) = 1"
    by (simp_all add: failing_run_def)
  have "opened_files ''filtered.dat'' = None"
    by (simp add: opened_files_def)
  with diff_command_error[of failing_run "''HEAD''" "''src''" opened_files "''coverage.dat''"
      "''filtered.dat''"] rc one
  show ?thesis unfolding se by blast
qed

section \<open>Properties of parse_lcov_report\<close>

lemma sf_not_directive: "is_sf l \<Longrightarrow> \<not> is_directive l"
  by (auto simp: is_sf_def is_directive_def prefix_def)

lemma modify_none: "modify f (d, None) = Inl TypeError"
  by (simp add: modify_def)

lemma modify_some: "\<exists>d' c'. modify f (d, Some c) = Inr (d', Some c')"
  by (cases c) (simp add: modify_def)

lemma set_count_none: "\<exists>e. set_count s f (d, None) = Inl e"
  by (simp add: set_count_def modify_none split: option.splits)

lemma set_count_some:
  "set_count s f (d, Some c) = Inl ValueError \<or> (\<exists>d' c'. set_count s f (d, Some c) = Inr (d', Some c'))"
  using modify_some by (simp add: set_count_def split: option.splits)

lemma parse_da_none: "\<exists>e. parse_da s (d, None) = Inl e"
  by (simp add: parse_da_def modify_none split: option.splits list.splits)

lemma parse_da_some:
  "parse_da s (d, Some c) = Inl ValueError \<or> parse_da s (d, Some c) = Inl IndexError \<or>
   (\<exists>d' c'. parse_da s (d, Some c) = Inr (d', Some c'))"
  using modify_some by (simp add: parse_da_def split: option.splits list.splits)

lemma parse_line_sf: "is_sf l \<Longrightarrow> \<exists>d' c'. parse_line l st = Inr (d', Some c')"
  by (simp add: parse_line_def is_sf_def Let_def)

lemma parse_line_other: "\<not> is_sf l \<Longrightarrow> \<not> is_directive l \<Longrightarrow> parse_line l st = Inr st"
  by (simp add: parse_line_def is_sf_def is_directive_def Let_def)

lemma parse_line_directive_none:
  assumes "is_directive l"
  shows "\<exists>e. parse_line l (d, None) = Inl e"
proof -
  from assms have "\<not> prefix ''SF:'' (strip l)"
    using sf_not_directive by (auto simp: is_sf_def)
  with assms show ?thesis
    using parse_da_none set_count_none
    by (auto simp: parse_line_def is_directive_def Let_def modify_none)
qed

lemma parse_line_some:
  "(\<exists>e. parse_line l (d, Some c) = Inl e \<and> e \<noteq> TypeError) \<or>
   (\<exists>d' c'. parse_line l (d, Some c) = Inr (d', Some c'))"
proof -
  have da: "\<And>s. (\<exists>e. parse_da s (d, Some c) = Inl e \<and> e \<noteq> TypeError) \<or>
      (\<exists>d' c'. parse_da s (d, Some c) = Inr (d', Some c'))"
    using parse_da_some by (metis error.distinct(17,19))
  have sc: "\<And>s f. (\<exists>e. set_count s f (d, Some c) = Inl e \<and> e \<noteq> TypeError) \<or>
      (\<exists>d' c'. set_count s f (d, Some c) = Inr (d', Some c'))"
    using set_count_some by (metis error.distinct(17))
  have md: "\<And>f. (\<exists>e. modify f (d, Some c) = Inl e \<and> e \<noteq> TypeError) \<or>
      (\<exists>d' c'. modify f (d, Some c) = Inr (d', Some c'))"
    using modify_some by blast
  show ?thesis
    unfolding parse_line_def Let_def
    by (simp only: da sc md split: if_split) simp
qed

lemma parse_loop_directive:
  assumes "is_directive l" and "\<forall>x \<in> set pre. \<not> is_sf x"
  shows "\<exists>e. parse_loop (pre @ l # post) (d, None) = Inl e"
  using assms(2)
proof (induction pre)
  case Nil
  from parse_line_directive_none[OF assms(1)] obtain e where "parse_line l (d, None) = Inl e" ..
  then show ?case by simp
next
  case (Cons x pre)
  show ?case
  proof (cases "is_directive x")
    case True
    from parse_line_directive_none[OF True] obtain e where "parse_line x (d, None) = Inl e" ..
    then show ?thesis by simp
  next
    case False
    with Cons.prems have "parse_line x (d, None) = Inr (d, None)"
      by (simp add: parse_line_other)
    with Cons show ?thesis by simp
  qed
qed

lemma parse_loop_some: "parse_loop ls (d, Some c) \<noteq> Inl TypeError"
proof (induction ls arbitrary: d c)
  case Nil
  show ?case by simp
next
  case (Cons l ls)
  from parse_line_some[of l d c] show ?case
  proof
    assume "\<exists>e. parse_line l (d, Some c) = Inl e \<and> e \<noteq> TypeError"
    then show ?thesis by auto
  next
    assume "\<exists>d' c'. parse_line l (d, Some c) = Inr (d', Some c')"
    then show ?thesis using Cons.IH by auto
  qed
qed

lemma parse_loop_opened:
  assumes "\<forall>pre l post. ls = pre @ l # post \<and> is_directive l \<longrightarrow> (\<exists>x \<in> set pre. is_sf x)"
  shows "parse_loop ls (d, None) \<noteq> Inl TypeError"
  using assms
proof (induction ls)
  case Nil
  show ?case by simp
next
  case (Cons x ls)
  from Cons.prems[rule_format, of "[]" x ls] have nd: "\<not> is_directive x" by auto
  show ?case
  proof (cases "is_sf x")
    case True
    from parse_line_sf[OF True] obtain d' c' where "parse_line x (d, None) = Inr (d', Some c')"
      by blast
    then show ?thesis by (simp add: parse_loop_some)
  next
    case False
    have "\<forall>pre l post. ls = pre @ l # post \<and> is_directive l \<longrightarrow> (\<exists>y \<in> set pre. is_sf y)"
    proof (intro allI impI)
      fix pre l post
      assume "ls = pre @ l # post \<and> is_directive l"
      then have "x # ls = (x # pre) @ l # post \<and> is_directive l" by simp
      with Cons.prems have "\<exists>y \<in> set (x # pre). is_sf y" by blast
      with False show "\<exists>y \<in> set pre. is_sf y" by simp
    qed
    with Cons.IH have "parse_loop ls (d, None) \<noteq> Inl TypeError" by simp
    moreover from False nd have "parse_line x (d, None) = Inr (d, None)"
      by (simp add: parse_line_other)
    ultimately show ?thesis by simp
  qed
qed

text \<open>
  C9. A data directive before the first \<open>SF:\<close> line makes parsing fail with an error;
  when every data directive follows some \<open>SF:\<close> line, the \<open>TypeError\<close> of the absent
  record is never raised.
\<close>

theorem directive_needs_record:
  assumes "fs lcov_report_path = Some content"
  shows "((\<exists>pre l post. file_lines content = pre @ l # post \<and> is_directive l \<and>
             (\<forall>x \<in> set pre. \<not> is_sf x)) \<longrightarrow>
          (\<exists>e. parse_lcov_report fs lcov_report_path = Inl e)) \<and>
         ((\<forall>pre l post. file_lines content = pre @ l # post \<and> is_directive l \<longrightarrow>
             (\<exists>x \<in> set pre. is_sf x)) \<longrightarrow>
          parse_lcov_report fs lcov_report_path \<noteq> Inl TypeError)"
proof (intro conjI impI)
  assume "\<exists>pre l post. file_lines content = pre @ l # post \<and> is_directive l \<and>
      (\<forall>x \<in> set pre. \<not> is_sf x)"
  then obtain pre l post where "file_lines content = pre @ l # post" "is_directive l"
    "\<forall>x \<in> set pre. \<not> is_sf x" by blast
  with parse_loop_directive[of l pre post "[]"]
  obtain e where "parse_loop (file_lines content) ([], None) = Inl e" by auto
  with assms show "\<exists>e. parse_lcov_report fs lcov_report_path = Inl e"
    by (simp add: parse_lcov_report_def)
next
  assume "\<forall>pre l post. file_lines content = pre @ l # post \<and> is_directive l \<longrightarrow>
      (\<exists>x \<in> set pre. is_sf x)"
  from parse_loop_opened[OF this] have "parse_loop (file_lines content) ([], None) \<noteq> Inl TypeError" .
  with assms show "parse_lcov_report fs lcov_report_path \<noteq> Inl TypeError"
    by (auto simp: parse_lcov_report_def split: sum.splits)
qed

lemma file_lines_examples:
  "file_lines opened_report = [''SF:a'', ''DA:1,2'']"
  "file_lines unopened_report = [''DA:1,2'', ''SF:a'']"
  by (simp_all add: file_lines_def opened_report_def unopened_report_def)

lemma line_kinds:
  "is_sf ''SF:a''" "\<not> is_directive ''SF:a''" "is_directive ''DA:1,2''"
  by (simp_all add: is_sf_def is_directive_def strip_def isspace_def)

theorem directive_needs_record_witness:
  "(\<exists>e. parse_lcov_report unopened_files ''coverage.dat'' = Inl e) \<and>
   parse_lcov_report opened_files ''coverage.dat'' \<noteq> Inl TypeError"
proof -
  have bad: "unopened_files ''coverage.dat'' = Some unopened_report"
    and good: "opened_files ''coverage.dat'' = Some opened_report"
    by (simp_all add: unopened_files_def opened_files_def)
  have "file_lines unopened_report = [] @ ''DA:1,2'' # [''SF:a''] \<and> is_directive ''DA:1,2'' \<and>
      (\<forall>x \<in> set []. \<not> is_sf x)"
    by (simp add: file_lines_examples line_kinds)
  then have "\<exists>pre l post. file_lines unopened_report = pre @ l # post \<and> is_directive l \<and>
      (\<forall>x \<in> set pre. \<not> is_sf x)"
    by blast
  with directive_needs_record[of unopened_files "''coverage.dat''" unopened_report, OF bad]
  have a: "\<exists>e. parse_lcov_report unopened_files ''coverage.dat'' = Inl e" by blast
  have "\<exists>x \<in> set pre. is_sf x"
    if "file_lines opened_report = pre @ l # post \<and> is_directive l" for pre l post
  proof (cases pre)
    case Nil
    with that have "l = ''SF:a''" "is_directive l" by (simp_all add: file_lines_examples)
    with line_kinds(2) show ?thesis by simp
  next
    case (Cons x xs)
    with that have "x = ''SF:a''" by (simp add: file_lines_examples)
    with Cons show ?thesis by (simp add: line_kinds)
  qed
  then have "\<forall>pre l post. file_lines opened_report = pre @ l # post \<and> is_directive l \<longrightarrow>
      (\<exists>x \<in> set pre. is_sf x)"
    by blast
  with directive_needs_record[of opened_files "''coverage.dat''" opened_report, OF good]
  have b: "parse_lcov_report opened_files ''coverage.dat'' \<noteq> Inl TypeError" by blast
  from a b show ?thesis by simp
qed

lemma parse_examples:
  "parse_lcov_report unopened_files ''coverage.dat'' = Inl TypeError"
  "parse_lcov_report opened_files ''coverage.dat'' =
     Inr [(''a'', \<lparr> DA = [(1, 2)], FN = [], FNDA = [], FNF = 0, FNH = 0, LH = 0, LF = 0 \<rparr>)]"
  by (simp_all add: parse_lcov_report_def unopened_files_def opened_files_def file_lines_examples
      parse_line_def parse_da_def modify_def split_on_def strip_def isspace_def py_int_def
      int_space_def max_str_digits_def isdigit_char_def digit_val_def Let_def)

section \<open>Properties of the filter\<close>

lemma filter_keys_lookup:
  "cd \<in> set (map fst coverage_data) \<Longrightarrow> map_of coverage_data cd \<noteq> None"
  by (induction coverage_data) auto

lemma map_of_filter_step:
  "map_of (filter_step file ls cov acc cd) k =
     (if k = cd \<and> sublist cd file \<and>
         (case map_of cov cd of None \<Rightarrow> False | Some data \<Rightarrow> filter_da ls (DA data) \<noteq> [])
      then Some (filtered_record (the (map_of cov cd)) (filter_da ls (DA (the (map_of cov cd)))))
      else map_of acc k)"
  by (simp add: filter_step_def update_conv' Let_def split: option.splits)

lemma map_of_filter_inner:
  "map_of (filter_inner file ls cov cds acc) k =
     (if k \<in> set cds \<and> sublist k file \<and>
         (case map_of cov k of None \<Rightarrow> False | Some data \<Rightarrow> filter_da ls (DA data) \<noteq> [])
      then Some (filtered_record (the (map_of cov k)) (filter_da ls (DA (the (map_of cov k)))))
      else map_of acc k)"
proof (induction cds arbitrary: acc)
  case Nil
  show ?case by simp
next
  case (Cons cd cds)
  show ?case
    by (auto simp add: Cons.IH map_of_filter_step split: option.splits)
qed

lemma map_of_filter_keys:
  "map_of (filter_inner file ls cov (map fst cov) acc) k =
     (case map_of cov k of
        None \<Rightarrow> map_of acc k
      | Some data \<Rightarrow>
          if sublist k file \<and> filter_da ls (DA data) \<noteq> []
          then Some (filtered_record data (filter_da ls (DA data)))
          else map_of acc k)"
proof (cases "map_of cov k")
  case None
  then show ?thesis by (simp add: map_of_filter_inner)
next
  case (Some data)
  then have "k \<in> set (map fst cov)"
    by (metis map_of_eq_None_iff option.distinct(1) set_map)
  with Some show ?thesis by (simp add: map_of_filter_inner)
qed

lemma map_of_filter_outer:
  "map_of (filter_outer cs cov acc) k =
     (case map_of cov k of
        None \<Rightarrow> map_of acc k
      | Some data \<Rightarrow>
          if surviving cs k data = [] then map_of acc k
          else Some (filtered_record data (filter_da (snd (last (surviving cs k data))) (DA data))))"
proof (induction cs arbitrary: acc)
  case Nil
  show ?case by (simp add: surviving_def split: option.splits)
next
  case (Cons e cs)
  obtain path ls where e: "e = (path, ls)" by (cases e)
  show ?case
    unfolding e
    by (simp add: Cons.IH map_of_filter_keys surviving_def split: option.splits)
qed

lemma filter_lookup:
  "map_of (filter_lcov_by_git_diff cs cov) k =
     (case map_of cov k of
        None \<Rightarrow> None
      | Some data \<Rightarrow>
          if surviving cs k data = [] then None
          else Some (filtered_record data (filter_da (snd (last (surviving cs k data))) (DA data))))"
  by (simp add: filter_lcov_by_git_diff_def map_of_filter_outer split: option.splits)

lemma distinct_filter_step:
  "distinct (map fst acc) \<Longrightarrow> distinct (map fst (filter_step file ls cov acc cd))"
  by (simp add: filter_step_def Let_def distinct_update split: option.splits)

lemma distinct_filter_inner:
  "distinct (map fst acc) \<Longrightarrow> distinct (map fst (filter_inner file ls cov cds acc))"
  by (induction cds arbitrary: acc) (simp_all add: distinct_filter_step)

lemma distinct_filter_outer:
  "distinct (map fst acc) \<Longrightarrow> distinct (map fst (filter_outer cs cov acc))"
  by (induction cs cov acc rule: filter_outer.induct) (simp_all add: distinct_filter_inner)

lemma distinct_filter_lcov:
  "distinct (map fst (filter_lcov_by_git_diff cs cov))"
  by (simp add: filter_lcov_by_git_diff_def distinct_filter_outer)

lemma filter_item_lookup:
  "(cd, r) \<in> set (filter_lcov_by_git_diff cs cov) \<longleftrightarrow>
     map_of (filter_lcov_by_git_diff cs cov) cd = Some r"
  using distinct_filter_lcov map_of_eq_Some_iff by fastforce

lemma filter_key_lookup:
  "cd \<in> fst ` set (filter_lcov_by_git_diff cs cov) \<longleftrightarrow>
     map_of (filter_lcov_by_git_diff cs cov) cd \<noteq> None"
  by (simp add: map_of_eq_None_iff)

lemma last_surviving:
  assumes "surviving cs cd data \<noteq> []"
  shows "last (surviving cs cd data) \<in> set cs"
    and "sublist cd (fst (last (surviving cs cd data)))"
    and "filter_da (snd (last (surviving cs cd data))) (DA data) \<noteq> []"
proof -
  have "last (surviving cs cd data) \<in> set (surviving cs cd data)"
    using assms by simp
  then show "last (surviving cs cd data) \<in> set cs"
    and "sublist cd (fst (last (surviving cs cd data)))"
    and "filter_da (snd (last (surviving cs cd data))) (DA data) \<noteq> []"
    by (auto simp: surviving_def split: prod.splits)
qed

lemma filter_item_cases:
  assumes "(cd, r) \<in> set (filter_lcov_by_git_diff cs cov)"
  obtains data where "map_of cov cd = Some data"
    and "surviving cs cd data \<noteq> []"
    and "r = filtered_record data (filter_da (snd (last (surviving cs cd data))) (DA data))"
  using assms unfolding filter_item_lookup filter_lookup
  by (auto split: option.splits if_splits)

lemma filter_da_empty_iff:
  "filter_da ls da = [] \<longleftrightarrow> ls \<inter> fst ` set da = {}"
proof
  assume "filter_da ls da = []"
  then have "\<forall>p\<in>set da. fst p \<notin> ls"
    by (auto simp: filter_da_def filter_empty_conv)
  then show "ls \<inter> fst ` set da = {}" by auto
next
  assume "ls \<inter> fst ` set da = {}"
  then have "\<forall>p\<in>set da. fst p \<notin> ls" by auto
  then show "filter_da ls da = []"
    by (auto simp: filter_da_def filter_empty_conv)
qed

lemma filter_da_idem: "filter_da ls (filter_da ls da) = filter_da ls da"
  by (simp add: filter_da_def)

lemma filter_da_twice_nonempty:
  "filter_da ls (filter_da ls' da) \<noteq> [] \<Longrightarrow> filter_da ls da \<noteq> []"
  by (auto simp: filter_da_def filter_empty_conv)

lemma last_filter_refine:
  assumes "\<And>x. x \<in> set xs \<Longrightarrow> Q x \<Longrightarrow> P x"
    and "filter P xs \<noteq> []"
    and "Q (last (filter P xs))"
  shows "filter Q xs \<noteq> [] \<and> last (filter Q xs) = last (filter P xs)"
  using assms
proof (induction xs rule: rev_induct)
  case Nil
  then show ?case by simp
next
  case (snoc x xs)
  show ?case
  proof (cases "P x")
    case True
    with snoc.prems show ?thesis by simp
  next
    case False
    with snoc.prems have nq: "\<not> Q x" by auto
    from False snoc.prems have "filter P xs \<noteq> []" "Q (last (filter P xs))" by simp_all
    with snoc.IH snoc.prems(1) have "filter Q xs \<noteq> [] \<and> last (filter Q xs) = last (filter P xs)"
      by simp
    with nq False show ?thesis by simp
  qed
qed

lemma surviving_refine:
  assumes s: "surviving cs k data \<noteq> []"
    and da: "DA r = filter_da (snd (last (surviving cs k data))) (DA data)"
  shows "surviving cs k r \<noteq> [] \<and> last (surviving cs k r) = last (surviving cs k data)"
proof -
  define P where "P = (\<lambda>(path :: string, ls). sublist k path \<and> filter_da ls (DA data) \<noteq> [])"
  define Q where "Q = (\<lambda>(path :: string, ls). sublist k path \<and> filter_da ls (DA r) \<noteq> [])"
  have sP: "surviving cs k data = filter P cs" and sQ: "surviving cs k r = filter Q cs"
    by (simp_all add: surviving_def P_def Q_def)
  obtain path ls where e: "last (filter P cs) = (path, ls)"
    by (cases "last (filter P cs)")
  have "last (filter P cs) \<in> set (filter P cs)"
    using s sP by (intro last_in_set) simp
  then have pe: "sublist k path" "filter_da ls (DA data) \<noteq> []"
    using e by (auto simp: P_def)
  have "DA r = filter_da ls (DA data)"
    using da sP e by simp
  then have "Q (path, ls)" and "\<And>x. Q x \<Longrightarrow> P x"
    using pe filter_da_twice_nonempty by (auto simp: P_def Q_def filter_da_idem)
  then have "filter Q cs \<noteq> [] \<and> last (filter Q cs) = last (filter P cs)"
    using s sP e by (intro last_filter_refine) simp_all
  then show ?thesis by (simp add: sP sQ)
qed

lemma sublist_example: "sublist ''src/Foo.java'' ''repo/src/Foo.java''"
  by (simp add: sublist_code)

lemma example_filter_result:
  "filter_lcov_by_git_diff example_changes example_report = [(''src/Foo.java'', example_filtered)]"
  by (simp add: filter_lcov_by_git_diff_def example_changes_def example_report_def
      example_record_def example_filtered_def filter_step_def filter_da_def filtered_record_def
      sublist_code)

lemma example_item:
  "(''src/Foo.java'', example_filtered) \<in> set (filter_lcov_by_git_diff example_changes example_report)"
  by (simp add: example_filter_result)

subsection \<open>Claims about the filter\<close>

text \<open>
  C1. Every record of the filtered report comes from a changeset entry that its key
  matches: each line number of its \<open>DA\<close> list belongs to that entry's line set, and each
  of its \<open>(line, hits)\<close> pairs is a pair of the \<open>DA\<close> list of the original record
  stored under the same key.
\<close>

theorem filtered_da_subset:
  assumes "(cd, r) \<in> set (filter_lcov_by_git_diff cs cov)"
  shows "\<exists>file changed_lines data.
           (file, changed_lines) \<in> set cs \<and> sublist cd file \<and> map_of cov cd = Some data \<and>
           (\<forall>(line, hits) \<in> set (DA r). line \<in> changed_lines) \<and>
           set (DA r) \<subseteq> set (DA data)"
proof -
  from assms obtain data where d: "map_of cov cd = Some data"
    and s: "surviving cs cd data \<noteq> []"
    and r: "r = filtered_record data (filter_da (snd (last (surviving cs cd data))) (DA data))"
    by (rule filter_item_cases)
  obtain path ls where e: "last (surviving cs cd data) = (path, ls)"
    by (cases "last (surviving cs cd data)")
  from last_surviving(1,2)[OF s] e have "(path, ls) \<in> set cs" "sublist cd path" by simp_all
  moreover from r e have "DA r = filter_da ls (DA data)"
    by (simp add: filtered_record_def)
  then have "(\<forall>(line, hits) \<in> set (DA r). line \<in> ls) \<and> set (DA r) \<subseteq> set (DA data)"
    by (auto simp: filter_da_def)
  ultimately show ?thesis using d by blast
qed

theorem filtered_da_subset_witness:
  "(''src/Foo.java'', example_filtered) \<in> set (filter_lcov_by_git_diff example_changes example_report) \<and>
   (\<exists>file changed_lines data.
      (file, changed_lines) \<in> set example_changes \<and> sublist ''src/Foo.java'' file \<and>
      map_of example_report ''src/Foo.java'' = Some data \<and>
      (\<forall>(line, hits) \<in> set (DA example_filtered). line \<in> changed_lines) \<and>
      set (DA example_filtered) \<subseteq> set (DA data))"
  using example_item filtered_da_subset[OF example_item] by (rule conjI)

text \<open>
  C2. In every record of the filtered report, \<open>LH\<close> is the number of entries of its
  \<open>DA\<close> list and \<open>LF\<close> is the number of distinct line numbers among them.
\<close>

theorem summary_consistency:
  assumes "(cd, r) \<in> set (filter_lcov_by_git_diff cs cov)"
  shows "LH r = int (length (DA r)) \<and> LF r = int (card (fst ` set (DA r)))"
  using assms by (rule filter_item_cases) (simp add: filtered_record_def)

theorem summary_consistency_witness:
  "(''src/Foo.java'', example_filtered) \<in> set (filter_lcov_by_git_diff example_changes example_report) \<and>
   LH example_filtered = int (length (DA example_filtered)) \<and>
   LF example_filtered = int (card (fst ` set (DA example_filtered))) \<and>
   LH example_filtered = 2 \<and> LF example_filtered = 2"
  using example_item summary_consistency[OF example_item]
  by (simp add: example_filtered_def)

text \<open>
  C3. A coverage key whose \<open>DA\<close> line numbers meet the line set of no matching
  changeset entry is not a key of the filtered report.
\<close>

theorem drop_empty:
  assumes "map_of cov cd = Some data"
    and "\<forall>(file, changed_lines) \<in> set cs.
           sublist cd file \<longrightarrow> changed_lines \<inter> fst ` set (DA data) = {}"
  shows "cd \<notin> fst ` set (filter_lcov_by_git_diff cs cov)"
proof -
  have "surviving cs cd data = []"
    using assms(2) by (fastforce simp: surviving_def filter_empty_conv filter_da_empty_iff)
  with assms(1) show ?thesis
    by (simp add: filter_key_lookup filter_lookup)
qed

theorem drop_empty_witness:
  "map_of untouched_report ''src/Foo.java'' \<noteq> None \<and>
   (''repo/src/Foo.java'', {1..3}) \<in> set example_changes \<and>
   sublist ''src/Foo.java'' ''repo/src/Foo.java'' \<and>
   ''src/Foo.java'' \<notin> fst ` set (filter_lcov_by_git_diff example_changes untouched_report)"
proof -
  let ?d = "\<lparr> DA = [(5, 3)], FN = [], FNDA = [], FNF = 0, FNH = 0, LH = 1, LF = 1 \<rparr>"
  have d: "map_of untouched_report ''src/Foo.java'' = Some ?d"
    by (simp add: untouched_report_def)
  have e: "\<forall>(file, changed_lines) \<in> set example_changes.
             sublist ''src/Foo.java'' file \<longrightarrow> changed_lines \<inter> fst ` set (DA ?d) = {}"
    by (simp add: example_changes_def)
  from drop_empty[OF d e] d sublist_example show ?thesis
    by (simp add: example_changes_def)
qed

text \<open>
  C4. Filtering a filtered report again with the same changeset gives the same
  dictionary: the same keys with the same records.
\<close>

theorem filter_idempotent:
  "map_of (filter_lcov_by_git_diff cs (filter_lcov_by_git_diff cs cov)) =
   map_of (filter_lcov_by_git_diff cs cov)"
proof
  fix k
  let ?F = "filter_lcov_by_git_diff cs cov"
  show "map_of (filter_lcov_by_git_diff cs ?F) k = map_of ?F k"
  proof (cases "map_of ?F k")
    case None
    then show ?thesis by (simp add: filter_lookup[of cs ?F])
  next
    case (Some r)
    then obtain data where d: "map_of cov k = Some data"
      and s: "surviving cs k data \<noteq> []"
      and r: "r = filtered_record data (filter_da (snd (last (surviving cs k data))) (DA data))"
      using filter_item_cases[of k r cs cov] by (auto simp: filter_item_lookup)
    have da: "DA r = filter_da (snd (last (surviving cs k data))) (DA data)"
      using r by (simp add: filtered_record_def)
    from surviving_refine[OF s da]
    have "surviving cs k r \<noteq> []" "last (surviving cs k r) = last (surviving cs k data)"
      by simp_all
    then have "map_of (filter_lcov_by_git_diff cs ?F) k =
        Some (filtered_record r (filter_da (snd (last (surviving cs k data))) (DA r)))"
      using Some by (simp add: filter_lookup[of cs ?F])
    also have "filtered_record r (filter_da (snd (last (surviving cs k data))) (DA r)) = r"
      using r by (simp add: filtered_record_def filter_da_idem)
    finally show ?thesis using Some by simp
  qed
qed

text \<open>
  The two dictionaries of C4 are equal as mappings, which is how Python compares them;
  their insertion orders can differ, as on this input.
\<close>

lemma filter_twice_order:
  "map fst (filter_lcov_by_git_diff overlapping_changes overlapping_report) = [''p'', ''q''] \<and>
   map fst (filter_lcov_by_git_diff overlapping_changes
      (filter_lcov_by_git_diff overlapping_changes overlapping_report)) = [''q'', ''p'']"
  by (simp add: filter_lcov_by_git_diff_def overlapping_changes_def overlapping_report_def
      filter_step_def filter_da_def filtered_record_def sublist_code Let_def)

text \<open>
  C5. In every record of the filtered report, \<open>FN\<close>, \<open>FNDA\<close>, \<open>FNF\<close> and
  \<open>FNH\<close> are those of the original record stored under the same key.
\<close>

theorem passthrough:
  assumes "(cd, r) \<in> set (filter_lcov_by_git_diff cs cov)"
  shows "\<exists>data. map_of cov cd = Some data \<and>
           FN r = FN data \<and> FNDA r = FNDA data \<and> FNF r = FNF data \<and> FNH r = FNH data"
  using assms by (rule filter_item_cases) (simp add: filtered_record_def)

theorem passthrough_witness:
  "(''src/Foo.java'', example_filtered) \<in> set (filter_lcov_by_git_diff example_changes example_report) \<and>
   (\<exists>data. map_of example_report ''src/Foo.java'' = Some data \<and>
      FN example_filtered = FN data \<and> FNDA example_filtered = FNDA data \<and>
      FNF example_filtered = FNF data \<and> FNH example_filtered = FNH data)"
  using example_item passthrough[OF example_item] by (rule conjI)

text \<open>
  C7 as stated fails: a coverage key can be a substring of a changeset key and still be
  absent from the output, because a record none of whose \<open>DA\<close> lines is in the line
  set is not stored.
\<close>

theorem substring_match_counterexample:
  "sublist ''src/Foo.java'' ''repo/src/Foo.java'' \<and>
   ''repo/src/Foo.java'' \<in> fst ` set example_changes \<and>
   ''src/Foo.java'' \<in> fst ` set untouched_report \<and>
   ''src/Foo.java'' \<notin> fst ` set (filter_lcov_by_git_diff example_changes untouched_report)"
  by (simp add: filter_lcov_by_git_diff_def example_changes_def untouched_report_def
      filter_step_def filter_da_def sublist_code)

text \<open>
  C7, amended. A coverage key is a key of the filtered report exactly when it is a
  substring of the path of some changeset entry whose line set contains the line number
  of at least one of the record's \<open>DA\<close> entries. The paths need not be equal.
\<close>

theorem substring_match_iff:
  "cd \<in> fst ` set (filter_lcov_by_git_diff cs cov) \<longleftrightarrow>
     (\<exists>data. map_of cov cd = Some data \<and>
        (\<exists>(file, changed_lines) \<in> set cs. sublist cd file \<and>
           (\<exists>(line, hits) \<in> set (DA data). line \<in> changed_lines)))"
proof -
  have "surviving cs cd data \<noteq> [] \<longleftrightarrow>
        (\<exists>(file, changed_lines) \<in> set cs. sublist cd file \<and>
           (\<exists>(line, hits) \<in> set (DA data). line \<in> changed_lines))" for data
    by (auto simp: surviving_def filter_empty_conv filter_da_def)
  then show ?thesis
    by (auto simp: filter_key_lookup filter_lookup split: option.splits)
qed

theorem substring_match_iff_witness:
  "''src/Foo.java'' \<noteq> ''repo/src/Foo.java'' \<and>
   ''repo/src/Foo.java'' \<in> fst ` set example_changes \<and>
   ''src/Foo.java'' \<in> fst ` set (filter_lcov_by_git_diff example_changes example_report)"
proof -
  have "\<exists>data. map_of example_report ''src/Foo.java'' = Some data \<and>
          (\<exists>(file, changed_lines) \<in> set example_changes. sublist ''src/Foo.java'' file \<and>
             (\<exists>(line, hits) \<in> set (DA data). line \<in> changed_lines))"
    by (simp add: example_report_def example_changes_def example_record_def sublist_code)
  then have "''src/Foo.java'' \<in> fst ` set (filter_lcov_by_git_diff example_changes example_report)"
    by (rule substring_match_iff[THEN iffD2])
  then show ?thesis by (simp add: example_changes_def)
qed

text \<open>
  C10 as stated fails: the last matching changeset entry does not overwrite an earlier
  result when its own filtered \<open>DA\<close> list is empty.
\<close>

theorem last_match_counterexample:
  "\<not> (1 < length (matching two_roots ''Foo.java'') \<longrightarrow>
      map_of (filter_lcov_by_git_diff two_roots one_line_report) ''Foo.java'' =
      map_of (filter_lcov_by_git_diff [last (matching two_roots ''Foo.java'')] one_line_report)
        ''Foo.java'')"
  by (simp add: filter_lcov_by_git_diff_def two_roots_def one_line_report_def matching_def
      filter_step_def filter_da_def sublist_code Let_def)

text \<open>
  C10, amended. The record stored for a coverage key is the one obtained by filtering
  against the last matching changeset entry that keeps at least one \<open>DA\<close> entry.
\<close>

theorem last_surviving_match:
  assumes "map_of cov cd = Some data" and "surviving cs cd data \<noteq> []"
  shows "map_of (filter_lcov_by_git_diff cs cov) cd =
         map_of (filter_lcov_by_git_diff [last (surviving cs cd data)] cov) cd"
proof -
  obtain path ls where e: "last (surviving cs cd data) = (path, ls)"
    by (cases "last (surviving cs cd data)")
  from last_surviving(2,3)[OF assms(2)] e
  have "surviving [(path, ls)] cd data = [(path, ls)]"
    by (simp add: surviving_def)
  with assms e show ?thesis
    by (simp add: filter_lookup)
qed

theorem last_surviving_match_witness:
  "map_of one_line_report ''Foo.java'' \<noteq> None \<and>
   length (matching two_roots ''Foo.java'') = 2 \<and>
   map_of (filter_lcov_by_git_diff two_roots one_line_report) ''Foo.java'' =
   map_of (filter_lcov_by_git_diff [(''a/Foo.java'', {1..2})] one_line_report) ''Foo.java''"
proof -
  let ?d = "\<lparr> DA = [(2, 7)], FN = [], FNDA = [], FNF = 0, FNH = 0, LH = 1, LF = 1 \<rparr>"
  have d: "map_of one_line_report ''Foo.java'' = Some ?d"
    by (simp add: one_line_report_def)
  have s: "surviving two_roots ''Foo.java'' ?d = [(''a/Foo.java'', {1..2})]"
    by (simp add: surviving_def two_roots_def filter_da_def sublist_code)
  have m: "length (matching two_roots ''Foo.java'') = 2"
    by (simp add: matching_def two_roots_def sublist_code)
  from last_surviving_match[OF d, of two_roots] s d m show ?thesis by simp
qed

section \<open>A whole run\<close>

text \<open>
  The scenario end to end: git reports three added lines, the report has \<open>DA\<close> entries
  for the lines 1, 2 and 5, and the file written keeps the lines 1 and 2 with \<open>LH:2\<close>
  and \<open>LF:2\<close>.
\<close>

lemma parse_example:
  "parse_lcov_report example_files ''coverage.dat'' = Inr example_report"
  by (simp add: parse_lcov_report_def example_files_def file_lines_def
      parse_line_def parse_da_def set_count_def modify_def split_on_def strip_def isspace_def
      py_int_def int_space_def max_str_digits_def isdigit_char_def digit_val_def Let_def
      example_report_def example_record_def)

lemma save_example:
  "save_filtered_lcov_report [(''src/Foo.java'', example_filtered)] ''filtered.dat'' fs =
     fs(''filtered.dat'' \<mapsto>
        ''SF:src/Foo.java\<newline>FN:1,foo\<newline>FNDA:5,foo\<newline>FNF:1\<newline>FNH:1\<newline>DA:1,5\<newline>DA:2,0\<newline>LH:2\<newline>LF:2\<newline>end_of_record\<newline>'')"
  by (simp add: save_filtered_lcov_report_def record_text_def example_filtered_def str_int_def)

lemma main_example:
  "main example_run example_files ''HEAD'' ''repo/src'' ''coverage.dat'' ''filtered.dat'' =
     (None, example_files(''filtered.dat'' \<mapsto>
        ''SF:src/Foo.java\<newline>FN:1,foo\<newline>FNDA:5,foo\<newline>FNF:1\<newline>FNH:1\<newline>DA:1,5\<newline>DA:2,0\<newline>LH:2\<newline>LF:2\<newline>end_of_record\<newline>''))"
  by (simp add: main_def example_run_result parse_example example_filter_result save_example)

end
